theory Spec2Isabelle
  imports Complex_Main
begin

section \<open>Newton-Raphson with a complex-step Jacobian (complex\_step.cpp)\<close>

text \<open>
  A shallow embedding of \<^verbatim>\<open>complex_step.cpp\<close>. The program works on
  \<^verbatim>\<open>double\<close> and \<^verbatim>\<open>std::complex<double>\<close>; the embedding computes with the
  exact fields \<^typ>\<open>real\<close> and \<^typ>\<open>complex\<close>, so rounding, overflow and the
  non-finite doubles are outside it. An Armadillo column is a list, an Armadillo matrix
  is the list of its columns (Armadillo stores matrices column by column, and the
  program writes the Jacobian a column at a time).
\<close>

subsection \<open>Constants\<close>

definition NUMDIMENSIONS :: nat where
  "NUMDIMENSIONS = 3"

definition MAXITERATIONS :: int where
  "MAXITERATIONS = 9"

definition ERRORTOLLERANCE :: real where
  "ERRORTOLLERANCE = 1 / 10 ^ 4"

definition PROBEDISTANCE :: real where
  "PROBEDISTANCE = 1 / 10 ^ 22"

subsection \<open>Vectors and matrices\<close>

type_synonym cvec = "complex list"
type_synonym rvec = "real list"
type_synonym cmat = "complex list list"
type_synonym rmat = "real list list"

text \<open>Entry in row \<open>k\<close> and column \<open>j\<close> of a matrix held as its list of columns.\<close>

definition mat_at :: "'a list list \<Rightarrow> nat \<Rightarrow> nat \<Rightarrow> 'a" where
  "mat_at M k j = M ! j ! k"

text \<open>\<^verbatim>\<open>M.row(i)\<close>: the \<open>i\<close>-th entry of every column.\<close>

definition mat_row :: "'a list list \<Rightarrow> nat \<Rightarrow> 'a list" where
  "mat_row M i = map (\<lambda>c. c ! i) M"

text \<open>\<^verbatim>\<open>M.fill(v)\<close> on a matrix of the program's size.\<close>

definition mat_fill :: "'a \<Rightarrow> 'a list list" where
  "mat_fill v = replicate NUMDIMENSIONS (replicate NUMDIMENSIONS v)"

text \<open>\<^verbatim>\<open>M.col(j)[k] = v\<close>.\<close>

definition mat_set :: "'a list list \<Rightarrow> nat \<Rightarrow> nat \<Rightarrow> 'a \<Rightarrow> 'a list list" where
  "mat_set M j k v = M[j := (M ! j)[k := v]]"

text \<open>The shape every matrix of the program has: \<open>NUMDIMENSIONS\<close> columns of that length.\<close>

definition well_shaped :: "'a list list \<Rightarrow> bool" where
  "well_shaped M = (length M = NUMDIMENSIONS \<and> list_all (\<lambda>c. length c = NUMDIMENSIONS) M)"

text \<open>A vector all of whose entries have imaginary part zero.\<close>

definition real_vec :: "cvec \<Rightarrow> bool" where
  "real_vec x = list_all (\<lambda>z. Im z = 0) x"

definition real_mat :: "cmat \<Rightarrow> bool" where
  "real_mat A = list_all real_vec A"

subsection \<open>The model: calculateDependentVariables\<close>

text \<open>
  One pass of the loop body for index \<open>i\<close>: the first assignment stores the sum of the
  squares of \<^verbatim>\<open>myCurrentGuess.subvec(0,1) - myOffsets.row(i).subvec(0,1).t()\<close>, the second
  reads that entry back and adds \<^verbatim>\<open>myCurrentGuess[2]*pow(-1.0, i) - myOffsets.row(i)[2]\<close>.
  On a complex matrix Armadillo's \<^verbatim>\<open>.t()\<close> is the Hermitian transpose, so the two offsets
  under the squares are conjugated; the third is not.
\<close>

definition dependent_step :: "cmat \<Rightarrow> cvec \<Rightarrow> nat \<Rightarrow> cvec \<Rightarrow> cvec" where
  "dependent_step myOffsets myCurrentGuess i t =
     (let t1 = t[i := sum_list (map (\<lambda>z. z ^ 2)
                  (map2 (-) (take 2 myCurrentGuess)
                     (map cnj (take 2 (mat_row myOffsets i)))))];
          t2 = t1[i := t1 ! i + myCurrentGuess ! 2 * complex_of_real ((- 1) ^ i)
                          - mat_row myOffsets i ! 2]
      in t2)"

text \<open>The third argument is the output buffer, returned updated.\<close>

definition calculateDependentVariables :: "cmat \<Rightarrow> cvec \<Rightarrow> cvec \<Rightarrow> cvec" where
  "calculateDependentVariables myOffsets myCurrentGuess targets =
     fold (dependent_step myOffsets myCurrentGuess) [0..<NUMDIMENSIONS] targets"

text \<open>The offset table as \<^verbatim>\<open>main\<close> builds it: filled with zero, then three entries set.\<close>

definition main_offsets :: cmat where
  "main_offsets =
     (let A0 = mat_fill 0;
          A1 = mat_set A0 0 0 1;
          A2 = mat_set A1 2 1 1;
          A3 = mat_set A2 2 2 1
      in A3)"

subsection \<open>The Jacobian estimator: calculateJacobian\<close>

text \<open>
  The model is passed as a function pointer; it receives the offsets, the guess and the
  buffer it writes its result to. The probe distance is the global
  \<^verbatim>\<open>PROBEDISTANCE\<close> in the source and an argument here, so that statements for every
  probe distance can be made; \<^verbatim>\<open>pow(PROBEDISTANCE, -1.0)\<close> is the exact inverse.
\<close>

type_synonym model = "cmat \<Rightarrow> cvec \<Rightarrow> cvec \<Rightarrow> cvec"

text \<open>
  One pass of the column loop on the triple (Jacobian, calculated targets, current guess).
\<close>

definition jacobian_column ::
  "real \<Rightarrow> model \<Rightarrow> cmat \<Rightarrow> nat \<Rightarrow> rmat \<times> cvec \<times> cvec \<Rightarrow> rmat \<times> cvec \<times> cvec" where
  "jacobian_column h f myOffsets j = (\<lambda>(J, T, x).
     let oldGuessValue = x ! j;
         x1 = x[j := x ! j + Complex 0 h];
         T1 = f myOffsets x1 T;
         J1 = J[j := map Im T1];
         J2 = J1[j := map (\<lambda>v. v * inverse h) (J1 ! j)];
         x2 = x1[j := oldGuessValue]
     in (J2, T1, x2))"

definition calculateJacobian ::
  "real \<Rightarrow> model \<Rightarrow> cmat \<Rightarrow> rmat \<Rightarrow> cvec \<Rightarrow> cvec \<Rightarrow> rmat \<times> cvec \<times> cvec" where
  "calculateJacobian h f myOffsets myJacobian myTargetsCalculated myCurrentGuess =
     (let unperturbed = f myOffsets myCurrentGuess (replicate NUMDIMENSIONS 0);
          (J, T, x) = fold (jacobian_column h f myOffsets) [0..<NUMDIMENSIONS]
                        (myJacobian, myTargetsCalculated, myCurrentGuess)
      in (J, unperturbed, x))"

subsection \<open>The update: updateGuess\<close>

text \<open>
  Armadillo's \<^verbatim>\<open>solve\<close> is not part of the program: it is an argument here. It
  returns the solution or fails (Armadillo raises \<^verbatim>\<open>std::runtime_error\<close>, which the
  program does not catch); adding columns of different sizes raises as well.
\<close>

datatype failure = SolveFailed | SizeMismatch

type_synonym solver = "rmat \<Rightarrow> rvec \<Rightarrow> rvec option"

text \<open>\<^verbatim>\<open>myCurrentGuess + d\<close> for a real column \<open>d\<close>.\<close>

definition add_real :: "cvec \<Rightarrow> rvec \<Rightarrow> cvec" where
  "add_real x d = map2 (\<lambda>z r. z + complex_of_real r) x d"

text \<open>
  Returns the new current guess and the new content of the real-targets buffer; the
  old content of that buffer (second argument) is overwritten before it is read.
\<close>

definition updateGuess ::
  "solver \<Rightarrow> cvec \<Rightarrow> rvec \<Rightarrow> cvec \<Rightarrow> rmat \<Rightarrow> failure + (cvec \<times> rvec)" where
  "updateGuess solve myCurrentGuess myRealTargets myTargetsCalculated myJacobian =
     (let realTargets = map Re myTargetsCalculated
      in case solve myJacobian (map uminus realTargets) of
           None \<Rightarrow> Inl SolveFailed
         | Some d \<Rightarrow>
             if length d \<noteq> length myCurrentGuess then Inl SizeMismatch
             else Inr (add_real myCurrentGuess d, realTargets))"

subsection \<open>The residual: calculateResidual\<close>

text \<open>\<^verbatim>\<open>arma::norm(v, 2)\<close> of a real column: the square root of the sum of the squares.\<close>

definition norm2 :: "rvec \<Rightarrow> real" where
  "norm2 v = sqrt (sum_list (map (\<lambda>a. a ^ 2) v))"

definition calculateResidual :: "cvec \<Rightarrow> cvec \<Rightarrow> real" where
  "calculateResidual myTargetsDesired myTargetsCalculated =
     norm2 (map Re (map2 (-) myTargetsDesired myTargetsCalculated))"

subsection \<open>The driver: main\<close>

record solver_state =
  offsets :: cmat
  targetsDesired :: cvec
  targetsCalculated :: cvec
  realTargetsCalculated :: rvec
  currentGuess :: cvec
  jacobian :: rmat
  count :: int
  error :: real

text \<open>
  The state \<^verbatim>\<open>main\<close> sets up before the loop. The source fills the guess with 2.0; the
  initial guess is an argument here.
\<close>

definition initial_state :: "cvec \<Rightarrow> solver_state" where
  "initial_state x0 =
     \<lparr> offsets = main_offsets,
       targetsDesired = replicate NUMDIMENSIONS 0,
       targetsCalculated = replicate NUMDIMENSIONS 0,
       realTargetsCalculated = replicate NUMDIMENSIONS 0,
       currentGuess = x0,
       jacobian = mat_fill 0,
       count = 0,
       error = 10 ^ 5 \<rparr>"

definition main_guess :: cvec where
  "main_guess = replicate NUMDIMENSIONS 2"

text \<open>The four calls of the loop body, each on the variables of \<^verbatim>\<open>main\<close>.\<close>

definition call_calculateJacobian :: "real \<Rightarrow> solver_state \<Rightarrow> solver_state" where
  "call_calculateJacobian h st =
     (let (J, T, x) = calculateJacobian h calculateDependentVariables (offsets st)
                        (jacobian st) (targetsCalculated st) (currentGuess st)
      in st\<lparr>jacobian := J, targetsCalculated := T, currentGuess := x\<rparr>)"

definition call_updateGuess :: "solver \<Rightarrow> solver_state \<Rightarrow> failure + solver_state" where
  "call_updateGuess solve st =
     (case updateGuess solve (currentGuess st) (realTargetsCalculated st)
             (targetsCalculated st) (jacobian st) of
        Inl e \<Rightarrow> Inl e
      | Inr (x, R) \<Rightarrow> Inr (st\<lparr>currentGuess := x, realTargetsCalculated := R\<rparr>))"

definition call_calculateDependentVariables :: "solver_state \<Rightarrow> solver_state" where
  "call_calculateDependentVariables st =
     st\<lparr>targetsCalculated :=
          calculateDependentVariables (offsets st) (currentGuess st) (targetsCalculated st)\<rparr>"

definition call_calculateResidual :: "solver_state \<Rightarrow> solver_state" where
  "call_calculateResidual st =
     st\<lparr>error := calculateResidual (targetsDesired st) (targetsCalculated st)\<rparr>"

text \<open>The loop body, up to and including \<^verbatim>\<open>count ++\<close>.\<close>

definition newton_iteration :: "solver \<Rightarrow> real \<Rightarrow> solver_state \<Rightarrow> failure + solver_state" where
  "newton_iteration solve h st =
     (case call_updateGuess solve (call_calculateJacobian h st) of
        Inl e \<Rightarrow> Inl e
      | Inr st2 \<Rightarrow>
          let st3 = call_calculateDependentVariables st2;
              st4 = call_calculateResidual st3
          in Inr (st4\<lparr>count := count st4 + 1\<rparr>))"

text \<open>
  \<^verbatim>\<open>while(count < MAXITERATIONS and error > ERRORTOLLERANCE)\<close>, with the cap and the
  tolerance as arguments. The result is the state at loop exit, or the failure that
  ended the program.
\<close>

function newton_loop ::
  "solver \<Rightarrow> real \<Rightarrow> int \<Rightarrow> real \<Rightarrow> solver_state \<Rightarrow> failure + solver_state" where
  "newton_loop solve h K eps st =
     (if count st < K \<and> error st > eps
      then (case newton_iteration solve h st of
              Inl e \<Rightarrow> Inl e
            | Inr st' \<Rightarrow> newton_loop solve h K eps st')
      else Inr st)"
  by pat_completeness auto

termination
  by (relation "measure (\<lambda>(solve, h, K, eps, st). nat (K - count st))")
     (auto simp: newton_iteration_def call_updateGuess_def call_calculateJacobian_def
        call_calculateDependentVariables_def call_calculateResidual_def Let_def
        split: sum.splits prod.splits)

declare newton_loop.simps [simp del]

text \<open>The program: the loop from the initial state with the constants of the source.\<close>

definition main :: "solver \<Rightarrow> failure + solver_state" where
  "main solve =
     newton_loop solve PROBEDISTANCE MAXITERATIONS ERRORTOLLERANCE (initial_state main_guess)"

subsection \<open>The statements' vocabulary\<close>

text \<open>
  What \<^const>\<open>calculateDependentVariables\<close> stores in entry \<open>i\<close>, in closed form. For a
  real offset table the conjugations are the identity, and this is the reference model
  \<open>F\<^sub>i(x) = (x\<^sub>0 - A\<^sub>i\<^sub>0)\<^sup>2 + (x\<^sub>1 - A\<^sub>i\<^sub>1)\<^sup>2 + (-1)\<^sup>i x\<^sub>2 - A\<^sub>i\<^sub>2\<close>.
\<close>

definition paraboloid :: "cmat \<Rightarrow> cvec \<Rightarrow> nat \<Rightarrow> complex" where
  "paraboloid A x i = (x ! 0 - cnj (mat_at A i 0)) ^ 2 + (x ! 1 - cnj (mat_at A i 1)) ^ 2
      + (- 1) ^ i * x ! 2 - mat_at A i 2"

definition model_at :: "cmat \<Rightarrow> cvec \<Rightarrow> cvec" where
  "model_at A x = map (paraboloid A x) [0..<NUMDIMENSIONS]"

text \<open>The guess with \<open>i h\<close> added to coordinate \<open>j\<close>; a shorthand of the auxiliary facts.\<close>

definition perturb :: "real \<Rightarrow> nat \<Rightarrow> cvec \<Rightarrow> cvec" where
  "perturb h j x = x[j := x ! j + Complex 0 h]"

text \<open>Column \<open>j\<close> is the imaginary part of the model at the \<open>j\<close>-th probe, over \<open>h\<close>.\<close>

definition step_jacobian :: "real \<Rightarrow> cmat \<Rightarrow> cvec \<Rightarrow> rmat" where
  "step_jacobian h A x =
     map (\<lambda>j. map (\<lambda>v. v / h) (map Im (model_at A (perturb h j x)))) [0..<NUMDIMENSIONS]"

text \<open>Row \<open>i\<close> of the analytic Jacobian of the reference model.\<close>

definition analytic_row :: "cmat \<Rightarrow> cvec \<Rightarrow> nat \<Rightarrow> rvec" where
  "analytic_row A x i =
     [2 * (Re (x ! 0) - Re (mat_at A i 0)), 2 * (Re (x ! 1) - Re (mat_at A i 1)), (- 1) ^ i]"

text \<open>The sizes \<^verbatim>\<open>main\<close> gives its buffers, kept by every iteration.\<close>

definition state_ok :: "solver_state \<Rightarrow> bool" where
  "state_ok st = (length (currentGuess st) = NUMDIMENSIONS
     \<and> length (targetsCalculated st) = NUMDIMENSIONS
     \<and> length (jacobian st) = NUMDIMENSIONS
     \<and> length (offsets st) = NUMDIMENSIONS)"

text \<open>The product of a matrix (list of columns) with a column.\<close>

definition mat_vec :: "rmat \<Rightarrow> rvec \<Rightarrow> rvec" where
  "mat_vec M v = map (\<lambda>k. sum_list (map2 (*) (mat_row M k) v)) [0..<NUMDIMENSIONS]"

definition det3 :: "rmat \<Rightarrow> real" where
  "det3 M = mat_at M 0 0 * (mat_at M 1 1 * mat_at M 2 2 - mat_at M 1 2 * mat_at M 2 1)
          - mat_at M 0 1 * (mat_at M 1 0 * mat_at M 2 2 - mat_at M 1 2 * mat_at M 2 0)
          + mat_at M 0 2 * (mat_at M 1 0 * mat_at M 2 1 - mat_at M 1 1 * mat_at M 2 0)"

text \<open>
  Modelled from the spec: the dense linear solver (Armadillo's \<^verbatim>\<open>solve\<close>, which is not
  part of the program's source). The specification asks for a routine that returns the
  \<open>x\<close> with \<open>A x = b\<close> or a failure signal when \<open>A\<close> is singular; for the program's
  3 by 3 systems Cramer's rule is such a routine. It is used only to run the driver on
  concrete inputs.
\<close>

definition cramer_solve :: solver where
  "cramer_solve M b =
     (if well_shaped M \<and> length b = NUMDIMENSIONS \<and> det3 M \<noteq> 0
      then Some [det3 (M[0 := b]) / det3 M, det3 (M[1 := b]) / det3 M,
                 det3 (M[2 := b]) / det3 M]
      else None)"

text \<open>
  \<open>loop_head solve h K eps st0 n st\<close>: started in \<open>st0\<close>, the loop is at its test in state
  \<open>st\<close> after \<open>n\<close> executions of its body, each entered with the loop condition true.
\<close>

inductive loop_head ::
  "solver \<Rightarrow> real \<Rightarrow> int \<Rightarrow> real \<Rightarrow> solver_state \<Rightarrow> nat \<Rightarrow> solver_state \<Rightarrow> bool"
  for solve h K eps st0 where
  entry: "loop_head solve h K eps st0 0 st0"
| again: "loop_head solve h K eps st0 n st \<Longrightarrow> count st < K \<Longrightarrow> error st > eps \<Longrightarrow>
     newton_iteration solve h st = Inr st' \<Longrightarrow> loop_head solve h K eps st0 (Suc n) st'"

text \<open>The state of \<^verbatim>\<open>main\<close> after the first pass of the loop with the exact solver.\<close>

definition first_state :: solver_state where
  "first_state =
     (initial_state main_guess)
       \<lparr>jacobian := [[2, 4, 4], [4, 4, 4], [1, - 1, 1]],
        realTargetsCalculated := [7, 5, 9],
        currentGuess := [1, 5 / 4, 0],
        targetsCalculated := [25 / 16, 25 / 16, 25 / 16],
        error := calculateResidual [0, 0, 0] [25 / 16, 25 / 16, 25 / 16],
        count := 1\<rparr>"

text \<open>The initial state of \<^verbatim>\<open>main\<close> with the desired targets (1, 0, 0) instead of zero.\<close>

definition target_state :: solver_state where
  "target_state = (initial_state main_guess)\<lparr>targetsDesired := [1, 0, 0]\<rparr>"

subsection \<open>Auxiliary facts\<close>


lemma len_dim: "length xs = NUMDIMENSIONS \<Longrightarrow> \<exists>a b c. xs = [a, b, c]"
  unfolding NUMDIMENSIONS_def
  by (cases xs; simp; cases "tl xs"; simp; cases "tl (tl xs)"; auto)

lemma upt3: "[0..<NUMDIMENSIONS] = [0, 1, 2]"
  by (simp add: NUMDIMENSIONS_def upt_rec)

lemma cdv_eval:
  assumes "length x = NUMDIMENSIONS" "length T = NUMDIMENSIONS" "length A = NUMDIMENSIONS"
  shows "calculateDependentVariables A x T = map (paraboloid A x) [0..<NUMDIMENSIONS]"
proof -
  obtain x0 x1 x2 where x: "x = [x0, x1, x2]" using len_dim [OF assms(1)] by blast
  obtain t0 t1 t2 where T: "T = [t0, t1, t2]" using len_dim [OF assms(2)] by blast
  obtain c0 c1 c2 where A: "A = [c0, c1, c2]" using len_dim [OF assms(3)] by blast
  show ?thesis
    unfolding calculateDependentVariables_def upt3
    by (simp add: x T A dependent_step_def paraboloid_def mat_at_def mat_row_def Let_def)
qed

lemma main_offsets_eq: "main_offsets = [[1, 0, 0], [0, 0, 0], [0, 1, 1]]"
  by (simp add: main_offsets_def mat_fill_def mat_set_def NUMDIMENSIONS_def Let_def eval_nat_numeral)


lemma jacobian_column_eval:
  "jacobian_column h f A j (J, T, x) =
     (J[j := map (\<lambda>v. v / h) (map Im (f A (perturb h j x) T))], f A (perturb h j x) T,
      (perturb h j x)[j := x ! j])"
proof (cases "j < length J")
  case True
  then show ?thesis by (simp add: jacobian_column_def perturb_def Let_def divide_inverse)
next
  case False
  then have "length J \<le> j" by simp
  then show ?thesis by (simp add: jacobian_column_def perturb_def Let_def list_update_beyond)
qed

lemma perturb_restore: "(perturb h j x)[j := x ! j] = x"
  by (simp add: perturb_def)

lemma length_perturb: "length (perturb h j x) = length x"
  by (simp add: perturb_def)

lemma jacobian_fold:
  assumes pure: "\<And>y T. length y = NUMDIMENSIONS \<Longrightarrow> length T = NUMDIMENSIONS \<Longrightarrow> f A y T = F y"
    and len: "\<And>y. length y = NUMDIMENSIONS \<Longrightarrow> length (F y) = NUMDIMENSIONS"
    and x: "length x = NUMDIMENSIONS" and T: "length T = NUMDIMENSIONS"
    and m: "m \<le> length J"
  shows "\<exists>J' T'. fold (jacobian_column h f A) [0..<m] (J, T, x) = (J', T', x)
           \<and> length T' = NUMDIMENSIONS \<and> length J' = length J
           \<and> (\<forall>j<m. J' ! j = map (\<lambda>v. v / h) (map Im (F (perturb h j x))))
           \<and> (\<forall>j\<ge>m. J' ! j = J ! j)"
  using m
proof (induction m)
  case 0
  show ?case using T by simp
next
  case (Suc m)
  then obtain J' T' where
    fold: "fold (jacobian_column h f A) [0..<m] (J, T, x) = (J', T', x)"
    and T': "length T' = NUMDIMENSIONS" and J': "length J' = length J"
    and cols: "\<forall>j<m. J' ! j = map (\<lambda>v. v / h) (map Im (F (perturb h j x)))"
    and rest: "\<forall>j\<ge>m. J' ! j = J ! j"
    by auto
  have call: "f A (perturb h m x) T' = F (perturb h m x)"
    using pure [of "perturb h m x" T'] x T' by (simp add: length_perturb)
  have step: "fold (jacobian_column h f A) [0..<Suc m] (J, T, x) =
      (J'[m := map (\<lambda>v. v / h) (map Im (F (perturb h m x)))], F (perturb h m x), x)"
    by (simp add: fold jacobian_column_eval call perturb_restore)
  have "length (F (perturb h m x)) = NUMDIMENSIONS"
    using len [of "perturb h m x"] x by (simp add: length_perturb)
  moreover have "\<forall>j<Suc m. (J'[m := map (\<lambda>v. v / h) (map Im (F (perturb h m x)))]) ! j
      = map (\<lambda>v. v / h) (map Im (F (perturb h j x)))"
    using cols J' Suc.prems by (auto simp: nth_list_update less_Suc_eq)
  moreover have "\<forall>j\<ge>Suc m. (J'[m := map (\<lambda>v. v / h) (map Im (F (perturb h m x)))]) ! j = J ! j"
    using rest by (auto simp: nth_list_update)
  ultimately show ?case using step J' by simp
qed

lemma calculateJacobian_eval:
  assumes pure: "\<And>y T. length y = NUMDIMENSIONS \<Longrightarrow> length T = NUMDIMENSIONS \<Longrightarrow> f A y T = F y"
    and len: "\<And>y. length y = NUMDIMENSIONS \<Longrightarrow> length (F y) = NUMDIMENSIONS"
    and x: "length x = NUMDIMENSIONS" and T: "length T = NUMDIMENSIONS"
    and J: "length J = NUMDIMENSIONS"
  shows "calculateJacobian h f A J T x =
           (map (\<lambda>j. map (\<lambda>v. v / h) (map Im (F (perturb h j x)))) [0..<NUMDIMENSIONS], F x, x)"
proof -
  obtain J' T' where
    fold: "fold (jacobian_column h f A) [0..<NUMDIMENSIONS] (J, T, x) = (J', T', x)"
    and J': "length J' = length J"
    and cols: "\<forall>j<NUMDIMENSIONS. J' ! j = map (\<lambda>v. v / h) (map Im (F (perturb h j x)))"
    using jacobian_fold [of f A F x T NUMDIMENSIONS J h] pure len x T J by auto
  have "J' = map (\<lambda>j. map (\<lambda>v. v / h) (map Im (F (perturb h j x)))) [0..<NUMDIMENSIONS]"
    using J' J cols by (intro nth_equalityI) auto
  moreover have "f A x (replicate NUMDIMENSIONS 0) = F x"
    using pure [of x "replicate NUMDIMENSIONS 0"] x by simp
  ultimately show ?thesis
    by (simp add: calculateJacobian_def fold)
qed


lemma minus_one_power_complex: "((- 1) ^ i :: complex) = complex_of_real ((- 1) ^ i)"
  by simp

lemma real_mat_entry:
  assumes "well_shaped A" "real_mat A" "i < NUMDIMENSIONS" "j < NUMDIMENSIONS"
  shows "Im (mat_at A i j) = 0"
  using assms
  by (auto simp: well_shaped_def real_mat_def real_vec_def mat_at_def list_all_length)

lemma real_vec_entry: "real_vec x \<Longrightarrow> j < length x \<Longrightarrow> Im (x ! j) = 0"
  by (simp add: real_vec_def list_all_length)

lemma complex_step_entry:
  assumes x: "length x = NUMDIMENSIONS" "real_vec x"
    and A: "well_shaped A" "real_mat A"
    and h: "h \<noteq> 0"
    and i: "i < NUMDIMENSIONS" and j: "j < NUMDIMENSIONS"
  shows "Im (paraboloid A (perturb h j x) i) / h = analytic_row A x i ! j"
proof -
  have a: "Im (mat_at A i 0) = 0" "Im (mat_at A i 1) = 0" "Im (mat_at A i 2) = 0"
    using real_mat_entry [OF A i] by (simp_all add: NUMDIMENSIONS_def)
  have r: "Im (x ! 0) = 0" "Im (x ! 1) = 0" "Im (x ! 2) = 0"
    using real_vec_entry [OF x(2)] x(1) by (simp_all add: NUMDIMENSIONS_def)
  have len: "0 < length x" "1 < length x" "2 < length x"
    using x(1) by (simp_all add: NUMDIMENSIONS_def)
  from j consider "j = 0" | "j = 1" | "j = 2"
    unfolding NUMDIMENSIONS_def by linarith
  then show ?thesis
  proof cases
    case 1
    then show ?thesis
      using a r h len
      by (simp add: paraboloid_def perturb_def analytic_row_def power2_eq_square
          minus_one_power_complex del: of_real_power of_real_minus)
  next
    case 2
    then show ?thesis
      using a r h len
      by (simp add: paraboloid_def perturb_def analytic_row_def power2_eq_square
          minus_one_power_complex del: of_real_power of_real_minus)
  next
    case 3
    then show ?thesis
      using a r h len
      by (simp add: paraboloid_def perturb_def analytic_row_def power2_eq_square
          minus_one_power_complex del: of_real_power of_real_minus)
  qed
qed


lemma length_model_at: "length (model_at A x) = NUMDIMENSIONS"
  by (simp add: model_at_def)

lemma length_step_jacobian: "length (step_jacobian h A x) = NUMDIMENSIONS"
  by (simp add: step_jacobian_def)

lemma calculateJacobian_paraboloid:
  assumes "length A = NUMDIMENSIONS" "length x = NUMDIMENSIONS"
    "length T = NUMDIMENSIONS" "length J = NUMDIMENSIONS"
  shows "calculateJacobian h calculateDependentVariables A J T x =
           (step_jacobian h A x, model_at A x, x)"
  unfolding step_jacobian_def
proof (rule calculateJacobian_eval)
  show "calculateDependentVariables A y T = model_at A y"
    if "length y = NUMDIMENSIONS" "length T = NUMDIMENSIONS" for y T
    using that assms(1) by (simp add: cdv_eval model_at_def)
  show "length (model_at A y) = NUMDIMENSIONS" for y
    by (rule length_model_at)
qed (use assms in simp_all)

lemma call_calculateJacobian_eval:
  assumes "state_ok st"
  shows "call_calculateJacobian h st =
           st\<lparr>jacobian := step_jacobian h (offsets st) (currentGuess st),
              targetsCalculated := model_at (offsets st) (currentGuess st)\<rparr>"
  using assms
  by (simp add: call_calculateJacobian_def state_ok_def calculateJacobian_paraboloid)

lemma length_add_real: "length d = length x \<Longrightarrow> length (add_real x d) = length x"
  by (simp add: add_real_def)

lemma newton_iteration_eval:
  assumes ok: "state_ok st"
  shows "newton_iteration solve h st =
    (case solve (step_jacobian h (offsets st) (currentGuess st))
            (map uminus (map Re (model_at (offsets st) (currentGuess st)))) of
       None \<Rightarrow> Inl SolveFailed
     | Some d \<Rightarrow>
         if length d \<noteq> length (currentGuess st) then Inl SizeMismatch
         else Inr (st\<lparr>jacobian := step_jacobian h (offsets st) (currentGuess st),
                 realTargetsCalculated := map Re (model_at (offsets st) (currentGuess st)),
                 currentGuess := add_real (currentGuess st) d,
                 targetsCalculated := model_at (offsets st) (add_real (currentGuess st) d),
                 error := calculateResidual (targetsDesired st)
                            (model_at (offsets st) (add_real (currentGuess st) d)),
                 count := count st + 1\<rparr>))"
proof -
  have len: "length (currentGuess st) = NUMDIMENSIONS" "length (offsets st) = NUMDIMENSIONS"
    using ok by (simp_all add: state_ok_def)
  have cdv: "calculateDependentVariables (offsets st) (add_real (currentGuess st) d)
        (model_at (offsets st) (currentGuess st))
      = model_at (offsets st) (add_real (currentGuess st) d)"
    if "length d = length (currentGuess st)" for d
    using that len by (simp add: cdv_eval model_at_def length_add_real)
  show ?thesis
    by (auto simp: newton_iteration_def call_calculateJacobian_eval [OF ok]
        call_updateGuess_def updateGuess_def call_calculateDependentVariables_def
        call_calculateResidual_def Let_def cdv split: option.splits)
qed


lemma step_jacobian_analytic:
  assumes x: "length x = NUMDIMENSIONS" "real_vec x"
    and A: "well_shaped A" "real_mat A"
    and h: "h \<noteq> 0"
  shows "step_jacobian h A x =
           map (\<lambda>j. map (\<lambda>i. analytic_row A x i ! j) [0..<NUMDIMENSIONS]) [0..<NUMDIMENSIONS]"
  unfolding step_jacobian_def model_at_def
  using complex_step_entry [OF x A h]
  by (simp add: comp_def)

lemma well_shaped_main_offsets: "well_shaped main_offsets"
  by (simp add: main_offsets_eq well_shaped_def NUMDIMENSIONS_def)

lemma real_mat_main_offsets: "real_mat main_offsets"
  by (simp add: main_offsets_eq real_mat_def real_vec_def)

lemma main_guess_eq: "main_guess = [2, 2, 2]"
  by (simp add: main_guess_def NUMDIMENSIONS_def eval_nat_numeral)

lemma real_vec_main_guess: "real_vec main_guess"
  by (simp add: main_guess_eq real_vec_def)

lemma probe_nonzero: "PROBEDISTANCE \<noteq> 0"
  by (simp add: PROBEDISTANCE_def)

lemma first_jacobian:
  "step_jacobian PROBEDISTANCE main_offsets main_guess = [[2, 4, 4], [4, 4, 4], [1, - 1, 1]]"
proof -
  have "length main_guess = NUMDIMENSIONS" by (simp add: main_guess_def)
  from step_jacobian_analytic [OF this real_vec_main_guess well_shaped_main_offsets
      real_mat_main_offsets probe_nonzero]
  show ?thesis
    by (simp add: upt3 analytic_row_def main_guess_eq main_offsets_eq mat_at_def)
qed

lemma first_targets: "model_at main_offsets main_guess = [7, 5, 9]"
  by (simp add: model_at_def upt3 paraboloid_def main_guess_eq main_offsets_eq mat_at_def)

lemma first_solve:
  "cramer_solve [[2, 4, 4], [4, 4, 4], [1, - 1, 1]] [- 7, - 5, - 9] = Some [- 1, - (3 / 4), - 2]"
  by (simp add: cramer_solve_def well_shaped_def upt3 det3_def mat_at_def NUMDIMENSIONS_def)

lemma second_targets:
  "model_at main_offsets (add_real main_guess [- 1, - (3 / 4), - 2]) = [25 / 16, 25 / 16, 25 / 16]"
  by (simp add: model_at_def upt3 paraboloid_def main_guess_eq main_offsets_eq mat_at_def
      add_real_def power2_eq_square)



lemma cramer_solve_sound:
  assumes "cramer_solve M b = Some d"
  shows "mat_vec M d = b"
proof -
  from assms have ws: "well_shaped M" and lb: "length b = NUMDIMENSIONS" and det: "det3 M \<noteq> 0"
    and d: "d = [det3 (M[0 := b]) / det3 M, det3 (M[1 := b]) / det3 M,
                 det3 (M[2 := b]) / det3 M]"
    by (auto simp: cramer_solve_def split: if_splits)
  have lM: "length M = NUMDIMENSIONS"
    using ws by (simp add: well_shaped_def)
  obtain c0 c1 c2 where M: "M = [c0, c1, c2]"
    using len_dim [OF lM] by blast
  obtain b0 b1 b2 where b: "b = [b0, b1, b2]"
    using len_dim [OF lb] by blast
  have lc: "length c0 = NUMDIMENSIONS" "length c1 = NUMDIMENSIONS" "length c2 = NUMDIMENSIONS"
    using ws by (simp_all add: well_shaped_def M)
  obtain m00 m10 m20 where c0: "c0 = [m00, m10, m20]"
    using len_dim [OF lc(1)] by blast
  obtain m01 m11 m21 where c1: "c1 = [m01, m11, m21]"
    using len_dim [OF lc(2)] by blast
  obtain m02 m12 m22 where c2: "c2 = [m02, m12, m22]"
    using len_dim [OF lc(3)] by blast
  note c = c0 c1 c2
  define D where "D = det3 M"
  define N0 where "N0 = det3 (M[0 := b])"
  define N1 where "N1 = det3 (M[1 := b])"
  define N2 where "N2 = det3 (M[2 := b])"
  have D: "D \<noteq> 0" using det by (simp add: D_def)
  have r0: "m00 * N0 + m01 * N1 + m02 * N2 = b0 * D"
    by (simp add: D_def N0_def N1_def N2_def det3_def mat_at_def M c b algebra_simps)
  have r1: "m10 * N0 + m11 * N1 + m12 * N2 = b1 * D"
    by (simp add: D_def N0_def N1_def N2_def det3_def mat_at_def M c b algebra_simps)
  have r2: "m20 * N0 + m21 * N1 + m22 * N2 = b2 * D"
    by (simp add: D_def N0_def N1_def N2_def det3_def mat_at_def M c b algebra_simps)
  have q: "p * N0 / D + (q * N1 / D + r * N2 / D) = (p * N0 + q * N1 + r * N2) / D"
    for p q r
    by (simp add: add_divide_distrib)
  have "mat_vec M [N0 / D, N1 / D, N2 / D] = b"
    unfolding mat_vec_def upt3
    using D by (simp add: M c b mat_row_def q r0 r1 r2)
  then show ?thesis
    by (simp add: d D_def N0_def N1_def N2_def)
qed

lemma state_ok_initial: "length x0 = NUMDIMENSIONS \<Longrightarrow> state_ok (initial_state x0)"
  by (simp add: state_ok_def initial_state_def mat_fill_def main_offsets_eq NUMDIMENSIONS_def)

lemma newton_iteration_Inr:
  assumes ok: "state_ok st" and it: "newton_iteration solve h st = Inr st'"
  obtains d where
    "solve (step_jacobian h (offsets st) (currentGuess st))
       (map uminus (map Re (model_at (offsets st) (currentGuess st)))) = Some d"
    "length d = length (currentGuess st)"
    "st' = st\<lparr>jacobian := step_jacobian h (offsets st) (currentGuess st),
               realTargetsCalculated := map Re (model_at (offsets st) (currentGuess st)),
               currentGuess := add_real (currentGuess st) d,
               targetsCalculated := model_at (offsets st) (add_real (currentGuess st) d),
               error := calculateResidual (targetsDesired st)
                          (model_at (offsets st) (add_real (currentGuess st) d)),
               count := count st + 1\<rparr>"
  using it unfolding newton_iteration_eval [OF ok]
  by (auto split: option.splits if_splits)

lemma newton_iteration_count:
  "newton_iteration solve h st = Inr st' \<Longrightarrow> count st' = count st + 1"
  by (auto simp: newton_iteration_def call_updateGuess_def call_calculateJacobian_def
      call_calculateDependentVariables_def call_calculateResidual_def Let_def
      split: sum.splits prod.splits)

lemma newton_iteration_ok:
  assumes "state_ok st" "newton_iteration solve h st = Inr st'"
  shows "state_ok st'"
proof (rule newton_iteration_Inr [OF assms])
  fix d
  assume "length d = length (currentGuess st)"
    and "st' = st\<lparr>jacobian := step_jacobian h (offsets st) (currentGuess st),
               realTargetsCalculated := map Re (model_at (offsets st) (currentGuess st)),
               currentGuess := add_real (currentGuess st) d,
               targetsCalculated := model_at (offsets st) (add_real (currentGuess st) d),
               error := calculateResidual (targetsDesired st)
                          (model_at (offsets st) (add_real (currentGuess st) d)),
               count := count st + 1\<rparr>"
  then show ?thesis
    using assms(1)
    by (simp add: state_ok_def length_add_real length_model_at length_step_jacobian)
qed

lemma Im_add_real: "length d = length x \<Longrightarrow> map Im (add_real x d) = map Im x"
  by (auto simp: add_real_def intro: nth_equalityI)

lemma real_vec_Im: "real_vec x \<longleftrightarrow> map Im x = replicate (length x) 0"
  by (auto simp: real_vec_def list_all_length list_eq_iff_nth_eq)

lemma newton_iteration_Im:
  assumes "state_ok st" "newton_iteration solve h st = Inr st'"
  shows "map Im (currentGuess st') = map Im (currentGuess st)"
proof (rule newton_iteration_Inr [OF assms])
  fix d
  assume "length d = length (currentGuess st)"
    and "st' = st\<lparr>jacobian := step_jacobian h (offsets st) (currentGuess st),
               realTargetsCalculated := map Re (model_at (offsets st) (currentGuess st)),
               currentGuess := add_real (currentGuess st) d,
               targetsCalculated := model_at (offsets st) (add_real (currentGuess st) d),
               error := calculateResidual (targetsDesired st)
                          (model_at (offsets st) (add_real (currentGuess st) d)),
               count := count st + 1\<rparr>"
  then show ?thesis
    by (simp add: Im_add_real)
qed

lemma newton_iteration_real:
  assumes "state_ok st" "newton_iteration solve h st = Inr st'" "real_vec (currentGuess st)"
  shows "real_vec (currentGuess st')"
proof -
  have "length (currentGuess st') = length (currentGuess st)"
    using newton_iteration_ok [OF assms(1,2)] assms(1) by (simp add: state_ok_def)
  then show ?thesis
    using newton_iteration_Im [OF assms(1,2)] assms(3) by (simp add: real_vec_Im)
qed

lemma loop_head_invariant:
  assumes "loop_head solve h K eps st0 n st" "state_ok st0" "real_vec (currentGuess st0)"
  shows "state_ok st \<and> real_vec (currentGuess st)"
  using assms
proof (induction rule: loop_head.induct)
  case entry
  then show ?case by simp
next
  case (again n st st')
  then show ?case
    using newton_iteration_ok newton_iteration_real by blast
qed

lemma loop_head_count:
  assumes "loop_head solve h K eps st0 n st"
  shows "count st = count st0 + int n"
  using assms
  by (induction rule: loop_head.induct) (auto dest: newton_iteration_count)

lemma loop_head_prepend:
  assumes "loop_head solve h K eps st1 n st2"
    and "count st < K" "error st > eps" "newton_iteration solve h st = Inr st1"
  shows "loop_head solve h K eps st (Suc n) st2"
  using assms
proof (induction rule: loop_head.induct)
  case entry
  then show ?case
    using loop_head.again [OF loop_head.entry] by blast
next
  case (again n st2 st3)
  then show ?case
    using loop_head.again by blast
qed

lemma newton_loop_result:
  assumes "count st \<le> K"
  shows "case newton_loop solve h K eps st of
           Inr st' \<Rightarrow>
             \<exists>n. loop_head solve h K eps st n st' \<and> count st' = count st + int n
               \<and> count st' \<le> K \<and> (error st' \<le> eps \<or> count st' = K)
         | Inl e \<Rightarrow>
             \<exists>n s. loop_head solve h K eps st n s \<and> count s < K \<and> error s > eps
               \<and> newton_iteration solve h s = Inl e"
  using assms
proof (induction solve h K eps st rule: newton_loop.induct)
  case (1 solve h K eps st)
  show ?case
  proof (cases "count st < K \<and> error st > eps")
    case False
    then have "newton_loop solve h K eps st = Inr st"
      by (subst newton_loop.simps) auto
    moreover have "loop_head solve h K eps st 0 st"
      by (rule loop_head.entry)
    ultimately show ?thesis
      using False "1.prems" by (auto intro!: exI [of _ 0])
  next
    case True
    show ?thesis
    proof (cases "newton_iteration solve h st")
      case (Inl e)
      then have "newton_loop solve h K eps st = Inl e"
        using True by (subst newton_loop.simps) simp
      moreover have "loop_head solve h K eps st 0 st"
        by (rule loop_head.entry)
      ultimately show ?thesis
        using True Inl by auto
    next
      case (Inr st1)
      then have unfold: "newton_loop solve h K eps st = newton_loop solve h K eps st1"
        using True by (subst newton_loop.simps) simp
      have c: "count st1 = count st + 1"
        using Inr by (rule newton_iteration_count)
      with True have le: "count st1 \<le> K" by simp
      note IH = "1.IH" [OF True Inr le]
      show ?thesis
      proof (cases "newton_loop solve h K eps st1")
        case (Inl e)
        with IH obtain n s where
          "loop_head solve h K eps st1 n s" "count s < K" "error s > eps"
          "newton_iteration solve h s = Inl e"
          by auto
        then show ?thesis
          using loop_head_prepend [of solve h K eps st1 n s st] True Inr Inl unfold
          by auto
      next
        case (Inr st')
        with IH obtain n where
          "loop_head solve h K eps st1 n st'" "count st' = count st1 + int n"
          "count st' \<le> K" "error st' \<le> eps \<or> count st' = K"
          by auto
        then show ?thesis
          using loop_head_prepend [of solve h K eps st1 n st' st] True
            \<open>newton_iteration solve h st = Inr st1\<close> Inr unfold c
          by (auto intro!: exI [of _ "Suc n"])
      qed
    qed
  qed
qed

lemma jacobian_column_probe:
  "jacobian_column h f A j (J, T, x) =
     (J[j := map (\<lambda>v. v * inverse h) (map Im (f A (x[j := x ! j + Complex 0 h]) T))],
      f A (x[j := x ! j + Complex 0 h]) T, x)"
  using jacobian_column_eval [of h f A j J T x]
  by (simp add: perturb_def divide_inverse comp_def)

lemma jacobian_fold_guess:
  "\<exists>J' T'. fold (jacobian_column h f A) [0..<m] (J, T, x) = (J', T', x)"
proof (induction m)
  case 0
  show ?case by simp
next
  case (Suc m)
  then obtain J' T' where "fold (jacobian_column h f A) [0..<m] (J, T, x) = (J', T', x)"
    by blast
  then show ?case
    by (simp add: jacobian_column_probe)
qed

lemma initial_state_fields:
  "offsets (initial_state x0) = main_offsets"
  "targetsDesired (initial_state x0) = [0, 0, 0]"
  "targetsCalculated (initial_state x0) = [0, 0, 0]"
  "realTargetsCalculated (initial_state x0) = [0, 0, 0]"
  "currentGuess (initial_state x0) = x0"
  "jacobian (initial_state x0) = [[0, 0, 0], [0, 0, 0], [0, 0, 0]]"
  "count (initial_state x0) = 0"
  "error (initial_state x0) = 10 ^ 5"
  by (simp_all add: initial_state_def mat_fill_def NUMDIMENSIONS_def eval_nat_numeral)

lemma initial_state_main:
  "initial_state main_guess =
     \<lparr>offsets = main_offsets, targetsDesired = [0, 0, 0], targetsCalculated = [0, 0, 0],
      realTargetsCalculated = [0, 0, 0], currentGuess = main_guess,
      jacobian = [[0, 0, 0], [0, 0, 0], [0, 0, 0]], count = 0, error = 10 ^ 5\<rparr>"
  by (simp add: initial_state_def mat_fill_def NUMDIMENSIONS_def eval_nat_numeral)

lemma first_jacobian_call:
  "call_calculateJacobian PROBEDISTANCE (initial_state main_guess) =
     (initial_state main_guess)
       \<lparr>jacobian := [[2, 4, 4], [4, 4, 4], [1, - 1, 1]], targetsCalculated := [7, 5, 9]\<rparr>"
proof -
  have "state_ok (initial_state main_guess)"
    by (rule state_ok_initial) (simp add: main_guess_def)
  from call_calculateJacobian_eval [OF this, of PROBEDISTANCE]
  show ?thesis
    by (simp add: initial_state_main first_jacobian first_targets)
qed

lemma first_guess: "add_real main_guess [- 1, - (3 / 4), - 2] = [1, 5 / 4, 0]"
  by (simp add: main_guess_eq add_real_def)

lemma length_main_guess: "length main_guess = 3"
  by (simp add: main_guess_eq)

lemma first_iteration:
  "newton_iteration cramer_solve PROBEDISTANCE (initial_state main_guess) = Inr first_state"
proof -
  have ok: "state_ok (initial_state main_guess)"
    by (rule state_ok_initial) (simp add: main_guess_def)
  have fields: "offsets (initial_state main_guess) = main_offsets"
    "currentGuess (initial_state main_guess) = main_guess"
    "targetsDesired (initial_state main_guess) = [0, 0, 0]"
    "count (initial_state main_guess) = 0"
    by (simp_all add: initial_state_main)
  have solve: "cramer_solve (step_jacobian PROBEDISTANCE main_offsets main_guess)
      (map uminus (map Re (model_at main_offsets main_guess))) = Some [- 1, - (3 / 4), - 2]"
    using first_solve by (simp add: first_jacobian first_targets)
  have guess: "add_real main_guess [- 1, - (3 / 4), - 2] = [1, 5 / 4, 0]"
    by (simp add: main_guess_eq add_real_def)
  have tg: "model_at main_offsets [1, 5 / 4, 0] = [25 / 16, 25 / 16, 25 / 16]"
    using second_targets unfolding guess by assumption
  have len: "length main_guess = 3"
    by (simp add: main_guess_eq)
  show ?thesis
    unfolding newton_iteration_eval [OF ok] fields solve
    by (simp add: len guess tg first_state_def first_jacobian first_targets)
qed

lemma first_calculateJacobian:
  "calculateJacobian PROBEDISTANCE calculateDependentVariables main_offsets
     [[0, 0, 0], [0, 0, 0], [0, 0, 0]] [0, 0, 0] main_guess
   = ([[2, 4, 4], [4, 4, 4], [1, - 1, 1]], [7, 5, 9], main_guess)"
proof -
  have "length main_offsets = NUMDIMENSIONS"
    using well_shaped_main_offsets by (simp add: well_shaped_def)
  moreover have "length main_guess = NUMDIMENSIONS"
    by (simp add: main_guess_def)
  ultimately show ?thesis
    by (simp add: calculateJacobian_paraboloid NUMDIMENSIONS_def first_jacobian first_targets)
qed

lemma target_iteration:
  "newton_iteration cramer_solve PROBEDISTANCE target_state =
     Inr (first_state\<lparr>targetsDesired := [1, 0, 0],
            error := calculateResidual [1, 0, 0] [25 / 16, 25 / 16, 25 / 16]\<rparr>)"
proof -
  have ok: "state_ok target_state"
    using state_ok_initial [of main_guess]
    by (simp add: target_state_def state_ok_def main_guess_def)
  have fields: "offsets target_state = main_offsets"
    "currentGuess target_state = main_guess"
    "targetsDesired target_state = [1, 0, 0]"
    "count target_state = 0"
    by (simp_all add: target_state_def initial_state_fields)
  have solve: "cramer_solve (step_jacobian PROBEDISTANCE main_offsets main_guess)
      (map uminus (map Re (model_at main_offsets main_guess))) = Some [- 1, - (3 / 4), - 2]"
    using first_solve by (simp add: first_jacobian first_targets)
  have tg: "model_at main_offsets [1, 5 / 4, 0] = [25 / 16, 25 / 16, 25 / 16]"
    using second_targets unfolding first_guess by assumption
  show ?thesis
    unfolding newton_iteration_eval [OF ok] fields solve
    by (simp add: length_main_guess first_guess tg first_state_def first_jacobian
        first_targets target_state_def)
qed

section \<open>The claims\<close>

subsection \<open>C3: the reference model\<close>

text \<open>
  C3. For every complex input vector \<open>x\<close> of length 3, an output buffer of length 3 and a
  real offset table \<open>A\<close> of the program's size, \<^const>\<open>calculateDependentVariables\<close>
  returns the vector with components
  \<open>F\<^sub>i(x) = (x\<^sub>0 - A\<^sub>i\<^sub>0)\<^sup>2 + (x\<^sub>1 - A\<^sub>i\<^sub>1)\<^sup>2 + (-1)\<^sup>i x\<^sub>2 - A\<^sub>i\<^sub>2\<close>. The offset table built
  in \<^verbatim>\<open>main\<close> has the rows (1,0,0), (0,0,1), (0,0,1), and with it the model evaluates to
  the zero vector at (1, 0, 0).
\<close>

theorem calculateDependentVariables_formula:
  assumes "length x = 3" and "length T = 3" and "well_shaped A" and "real_mat A"
  shows "calculateDependentVariables A x T =
           map (\<lambda>i. (x ! 0 - mat_at A i 0) ^ 2 + (x ! 1 - mat_at A i 1) ^ 2
                  + (- 1) ^ i * x ! 2 - mat_at A i 2) [0, 1, 2]
         \<and> mat_row main_offsets 0 = [1, 0, 0]
         \<and> mat_row main_offsets 1 = [0, 0, 1]
         \<and> mat_row main_offsets 2 = [0, 0, 1]
         \<and> calculateDependentVariables main_offsets [1, 0, 0] T = [0, 0, 0]"
proof -
  have A: "length A = NUMDIMENSIONS"
    using assms(3) by (simp add: well_shaped_def)
  have len: "length x = NUMDIMENSIONS" "length T = NUMDIMENSIONS"
    using assms(1,2) by (simp_all add: NUMDIMENSIONS_def)
  have one: "length [1, 0, 0 :: complex] = NUMDIMENSIONS"
    by (simp add: NUMDIMENSIONS_def)
  have offs: "length main_offsets = NUMDIMENSIONS"
    using well_shaped_main_offsets by (simp add: well_shaped_def)
  have "Im (mat_at A i j) = 0" if "i < NUMDIMENSIONS" "j < NUMDIMENSIONS" for i j
    using assms(3,4) that by (rule real_mat_entry)
  then have cnj: "cnj (mat_at A i j) = mat_at A i j" if "i < 3" "j < 3" for i j
    using that by (simp add: complex_eq_iff NUMDIMENSIONS_def)
  have "calculateDependentVariables A x T = map (paraboloid A x) [0, 1, 2]"
    using cdv_eval [OF len A] unfolding upt3 by assumption
  moreover have "calculateDependentVariables main_offsets [1, 0, 0] T
      = map (paraboloid main_offsets [1, 0, 0]) [0, 1, 2]"
    using cdv_eval [OF one len(2) offs] unfolding upt3 by assumption
  moreover have "map (paraboloid main_offsets [1, 0, 0]) [0, 1, 2] = [0, 0, 0]"
    by (simp add: paraboloid_def main_offsets_eq mat_at_def)
  moreover have "mat_row main_offsets 0 = [1, 0, 0]" "mat_row main_offsets 1 = [0, 0, 1]"
    "mat_row main_offsets 2 = [0, 0, 1]"
    by (simp_all add: main_offsets_eq mat_row_def)
  ultimately show ?thesis
    by (simp add: paraboloid_def cnj)
qed

theorem calculateDependentVariables_formula_witness:
  "length [2, 2, 2 :: complex] = 3 \<and> length [0, 0, 0 :: complex] = 3
   \<and> well_shaped main_offsets \<and> real_mat main_offsets
   \<and> calculateDependentVariables main_offsets [2, 2, 2] [0, 0, 0] = [7, 5, 9]
   \<and> calculateDependentVariables main_offsets [1, 0, 0] [0, 0, 0] = [0, 0, 0]"
proof -
  have h: "length [2, 2, 2 :: complex] = 3" "length [0, 0, 0 :: complex] = 3" by simp_all
  show ?thesis
    using calculateDependentVariables_formula [OF h well_shaped_main_offsets
        real_mat_main_offsets] well_shaped_main_offsets real_mat_main_offsets
    by (simp add: mat_at_def main_offsets_eq)
qed

subsection \<open>C1: what calculateJacobian returns\<close>

text \<open>
  C1. Let the model passed to \<^const>\<open>calculateJacobian\<close> compute a function \<open>F\<close> of the
  guess alone (whatever its output buffer holds on entry), with results of the program's
  size. Then for every current guess \<open>x\<close> (real or not), on return the Jacobian has
  \<open>J[k][j] = Im (F (x + i h e\<^sub>j))[k] / h\<close> for every row \<open>k\<close> and column \<open>j\<close>, where
  \<open>x + i h e\<^sub>j\<close> is \<open>x\<close> with \<open>i h\<close> added to coordinate \<open>j\<close>; the targets buffer holds the
  unperturbed evaluation \<open>F x\<close>, and the current guess is the one at entry.
\<close>

theorem calculateJacobian_result:
  assumes "\<And>y B. length y = NUMDIMENSIONS \<Longrightarrow> length B = NUMDIMENSIONS \<Longrightarrow> f A y B = F y"
    and "\<And>y. length y = NUMDIMENSIONS \<Longrightarrow> length (F y) = NUMDIMENSIONS"
    and "length x = NUMDIMENSIONS" and "length T = NUMDIMENSIONS"
    and "length J = NUMDIMENSIONS"
  shows "case calculateJacobian h f A J T x of
           (J', T', x') \<Rightarrow>
             (\<forall>j<NUMDIMENSIONS. \<forall>k<NUMDIMENSIONS.
                mat_at J' k j = Im (F (x[j := x ! j + Complex 0 h]) ! k) / h)
             \<and> T' = F x \<and> x' = x"
proof -
  have len: "length (F (perturb h j x)) = NUMDIMENSIONS" for j
    using assms(2) [of "perturb h j x"] assms(3) by (simp add: length_perturb)
  have "calculateJacobian h f A J T x =
      (map (\<lambda>j. map (\<lambda>v. v / h) (map Im (F (perturb h j x)))) [0..<NUMDIMENSIONS], F x, x)"
    using assms by (rule calculateJacobian_eval)
  then show ?thesis
    using len by (simp add: mat_at_def perturb_def)
qed

theorem calculateJacobian_result_witness:
  "mat_at (fst (calculateJacobian PROBEDISTANCE calculateDependentVariables main_offsets
              (mat_fill 0) [0, 0, 0] [2, 2, 2])) 1 0 = 4
   \<and> mat_at (fst (calculateJacobian PROBEDISTANCE calculateDependentVariables main_offsets
              (mat_fill 0) [0, 0, 0] [2, 2, 2])) 0 2 = 1
   \<and> fst (snd (calculateJacobian PROBEDISTANCE calculateDependentVariables main_offsets
              (mat_fill 0) [0, 0, 0] [2, 2, 2])) = [7, 5, 9]
   \<and> snd (snd (calculateJacobian PROBEDISTANCE calculateDependentVariables main_offsets
              (mat_fill 0) [0, 0, 0] [2, 2, 2])) = [2, 2, 2]"
proof -
  have pure: "calculateDependentVariables main_offsets y B = model_at main_offsets y"
    if "length y = NUMDIMENSIONS" "length B = NUMDIMENSIONS" for y B
    using that well_shaped_main_offsets by (simp add: cdv_eval model_at_def well_shaped_def)
  have len: "length (model_at main_offsets y) = NUMDIMENSIONS" for y
    by (rule length_model_at)
  have sizes: "length [2, 2, 2 :: complex] = NUMDIMENSIONS"
    "length [0, 0, 0 :: complex] = NUMDIMENSIONS"
    "length (mat_fill 0 :: rmat) = NUMDIMENSIONS"
    by (simp_all add: NUMDIMENSIONS_def mat_fill_def)
  have unperturbed: "model_at main_offsets [2, 2, 2] = [7, 5, 9]"
    using first_targets by (simp add: main_guess_eq)
  have r: "real_vec [2, 2, 2]"
    by (simp add: real_vec_def)
  have e10: "Im (model_at main_offsets ([2, 2, 2][0 := [2, 2, 2] ! 0 + Complex 0 PROBEDISTANCE]) ! 1)
      / PROBEDISTANCE = 4"
    using complex_step_entry [OF sizes(1) r well_shaped_main_offsets real_mat_main_offsets
        probe_nonzero, of 1 0]
    by (simp add: model_at_def upt3 perturb_def analytic_row_def main_offsets_eq mat_at_def
        NUMDIMENSIONS_def)
  have e02: "Im (model_at main_offsets ([2, 2, 2][2 := [2, 2, 2] ! 2 + Complex 0 PROBEDISTANCE]) ! 0)
      / PROBEDISTANCE = 1"
    using complex_step_entry [OF sizes(1) r well_shaped_main_offsets real_mat_main_offsets
        probe_nonzero, of 0 2]
    by (simp add: model_at_def upt3 perturb_def analytic_row_def NUMDIMENSIONS_def)
  have "case calculateJacobian PROBEDISTANCE calculateDependentVariables main_offsets
              (mat_fill 0) [0, 0, 0] [2, 2, 2] of
      (J', T', x') \<Rightarrow> mat_at J' 1 0 = 4 \<and> mat_at J' 0 2 = 1 \<and> T' = [7, 5, 9] \<and> x' = [2, 2, 2]"
    using calculateJacobian_result [of calculateDependentVariables main_offsets
        "model_at main_offsets" "[2, 2, 2]" "[0, 0, 0]" "mat_fill 0" PROBEDISTANCE,
        OF pure len sizes] e10 e02 unperturbed
    by (auto simp: NUMDIMENSIONS_def split: prod.splits)
  then show ?thesis
    by (simp split: prod.splits)
qed

subsection \<open>C4: the complex step is exact on the reference model\<close>

text \<open>
  C4. In exact complex arithmetic, for every real iterate \<open>x\<close>, every real offset table
  \<open>A\<close> and every probe distance \<open>h > 0\<close>, the Jacobian computed by
  \<^const>\<open>calculateJacobian\<close> on the reference model is the analytic Jacobian: its row \<open>i\<close>
  is \<open>(2 (x\<^sub>0 - A\<^sub>i\<^sub>0), 2 (x\<^sub>1 - A\<^sub>i\<^sub>1), (-1)\<^sup>i)\<close>, with no term depending on \<open>h\<close>.
\<close>

theorem calculateJacobian_exact:
  assumes "length x = NUMDIMENSIONS" and "real_vec x"
    and "well_shaped A" and "real_mat A"
    and "0 < h"
    and "length T = NUMDIMENSIONS" and "length J = NUMDIMENSIONS"
  shows "case calculateJacobian h calculateDependentVariables A J T x of
           (J', T', x') \<Rightarrow>
             length J' = NUMDIMENSIONS
             \<and> (\<forall>i<NUMDIMENSIONS. mat_row J' i =
                  [2 * (Re (x ! 0) - Re (mat_at A i 0)),
                   2 * (Re (x ! 1) - Re (mat_at A i 1)),
                   (- 1) ^ i])"
proof -
  have A: "length A = NUMDIMENSIONS"
    using assms(3) by (simp add: well_shaped_def)
  have h: "h \<noteq> 0"
    using assms(5) by simp
  have J: "step_jacobian h A x =
      map (\<lambda>j. map (\<lambda>i. analytic_row A x i ! j) [0..<NUMDIMENSIONS]) [0..<NUMDIMENSIONS]"
    by (rule step_jacobian_analytic [OF assms(1-4) h])
  have "mat_row (step_jacobian h A x) i = analytic_row A x i" if "i < NUMDIMENSIONS" for i
  proof -
    have "i = 0 \<or> i = 1 \<or> i = 2"
      using that unfolding NUMDIMENSIONS_def by linarith
    then show ?thesis
      unfolding J upt3 by (auto simp: mat_row_def analytic_row_def)
  qed
  then show ?thesis
    unfolding calculateJacobian_paraboloid [OF A assms(1) assms(6) assms(7)]
    by (simp add: length_step_jacobian analytic_row_def)
qed

theorem calculateJacobian_exact_witness:
  "mat_row (fst (calculateJacobian PROBEDISTANCE calculateDependentVariables main_offsets
              (mat_fill 0) [0, 0, 0] [2, 2, 2])) 1 = [4, 4, - 1]"
proof -
  have sizes: "length [2, 2, 2 :: complex] = NUMDIMENSIONS"
    "length [0, 0, 0 :: complex] = NUMDIMENSIONS"
    "length (mat_fill 0 :: rmat) = NUMDIMENSIONS"
    by (simp_all add: NUMDIMENSIONS_def mat_fill_def)
  have r: "real_vec [2, 2, 2]"
    by (simp add: real_vec_def)
  have h: "0 < PROBEDISTANCE"
    by (simp add: PROBEDISTANCE_def)
  show ?thesis
    using calculateJacobian_exact [OF sizes(1) r well_shaped_main_offsets
        real_mat_main_offsets h sizes(2) sizes(3)]
    by (auto simp: NUMDIMENSIONS_def main_offsets_eq mat_at_def split: prod.splits)
qed

subsection \<open>C9: the residual\<close>

text \<open>
  C9. For calculated targets \<open>F\<close> and desired targets \<open>F*\<close> of the same length,
  \<^const>\<open>calculateResidual\<close> returns the Euclidean norm of the real part of \<open>F* - F\<close>,
  which is the square root of the sum of the squares of \<open>Re F\<^sub>i - Re F*\<^sub>i\<close>, with no
  scaling or weighting, and the result is non-negative.
\<close>

theorem calculateResidual_norm:
  assumes "length Fstar = length F"
  shows "calculateResidual Fstar F = sqrt (\<Sum>i<length F. (Re (F ! i) - Re (Fstar ! i)) ^ 2)
         \<and> calculateResidual Fstar F = norm2 (map2 (-) (map Re F) (map Re Fstar))
         \<and> 0 \<le> calculateResidual Fstar F"
proof -
  have s1: "sum_list (map (\<lambda>a. a ^ 2) (map Re (map2 (-) Fstar F)))
      = (\<Sum>i<length F. (Re (F ! i) - Re (Fstar ! i)) ^ 2)"
    using assms
    by (simp add: sum_list_sum_nth atLeast0LessThan power2_commute)
  have s2: "sum_list (map (\<lambda>a. a ^ 2) (map2 (-) (map Re F) (map Re Fstar)))
      = (\<Sum>i<length F. (Re (F ! i) - Re (Fstar ! i)) ^ 2)"
    using assms
    by (simp add: sum_list_sum_nth atLeast0LessThan)
  have "0 \<le> (\<Sum>i<length F. (Re (F ! i) - Re (Fstar ! i)) ^ 2)"
    by (rule sum_nonneg) simp
  then show ?thesis
    unfolding calculateResidual_def norm2_def s1 s2 by simp
qed

theorem calculateResidual_norm_witness:
  "length [0, 0, 0 :: complex] = length [Complex 3 1, 4, 0]
   \<and> calculateResidual [0, 0, 0] [Complex 3 1, 4, 0] = 5"
proof -
  have h: "length [0, 0, 0 :: complex] = length [Complex 3 1, 4, 0]" by simp
  have "sqrt 25 = 5"
    by (rule real_sqrt_unique) simp_all
  then show ?thesis
    using calculateResidual_norm [OF h]
    by (simp add: lessThan_nat_numeral lessThan_Suc)
qed

subsection \<open>C10: what updateGuess changes\<close>

text \<open>
  C10. A call of \<^const>\<open>updateGuess\<close> that returns changes two variables of the caller:
  the current guess, incremented by the result of the solver for the Jacobian and the
  negated real parts of the calculated targets, and the real-targets buffer, overwritten
  with the real parts of the calculated targets. The Jacobian and the calculated targets
  (and every other variable) are unchanged, and the result is the same for any two
  calculated-target vectors with the same real parts, whatever the real-targets buffer
  held.
\<close>

theorem updateGuess_frame:
  assumes "call_updateGuess solve st = Inr st'"
  shows "(\<exists>d. solve (jacobian st) (map uminus (map Re (targetsCalculated st))) = Some d
            \<and> st' = st\<lparr>currentGuess := add_real (currentGuess st) d,
                       realTargetsCalculated := map Re (targetsCalculated st)\<rparr>)
         \<and> jacobian st' = jacobian st
         \<and> targetsCalculated st' = targetsCalculated st
         \<and> (\<forall>T R. map Re T = map Re (targetsCalculated st) \<longrightarrow>
               updateGuess solve (currentGuess st) R T (jacobian st)
               = updateGuess solve (currentGuess st) (realTargetsCalculated st)
                   (targetsCalculated st) (jacobian st))"
  using assms
  by (auto simp: call_updateGuess_def updateGuess_def Let_def
      split: sum.splits option.splits if_splits)

theorem updateGuess_frame_witness:
  "call_updateGuess cramer_solve (call_calculateJacobian PROBEDISTANCE (initial_state main_guess))
     = Inr ((initial_state main_guess)
              \<lparr>jacobian := [[2, 4, 4], [4, 4, 4], [1, - 1, 1]], targetsCalculated := [7, 5, 9],
               currentGuess := [1, 5 / 4, 0], realTargetsCalculated := [7, 5, 9]\<rparr>)
   \<and> updateGuess cramer_solve [2, 2, 2] [1, 1, 1] [Complex 7 1, Complex 5 2, Complex 9 3]
        [[2, 4, 4], [4, 4, 4], [1, - 1, 1]]
     = updateGuess cramer_solve [2, 2, 2] [0, 0, 0] [7, 5, 9]
        [[2, 4, 4], [4, 4, 4], [1, - 1, 1]]"
proof -
  define st where "st = call_calculateJacobian PROBEDISTANCE (initial_state main_guess)"
  have fields: "currentGuess st = [2, 2, 2]" "realTargetsCalculated st = [0, 0, 0]"
    "targetsCalculated st = [7, 5, 9]" "jacobian st = [[2, 4, 4], [4, 4, 4], [1, - 1, 1]]"
    unfolding st_def first_jacobian_call
    by (simp_all add: initial_state_fields main_guess_eq)
  have call: "call_updateGuess cramer_solve st
     = Inr ((initial_state main_guess)
              \<lparr>jacobian := [[2, 4, 4], [4, 4, 4], [1, - 1, 1]], targetsCalculated := [7, 5, 9],
               currentGuess := [1, 5 / 4, 0], realTargetsCalculated := [7, 5, 9]\<rparr>)"
    unfolding st_def first_jacobian_call
    by (simp add: call_updateGuess_def updateGuess_def initial_state_fields first_solve
        first_guess length_main_guess)
  have indep: "updateGuess cramer_solve (currentGuess st) R T (jacobian st)
      = updateGuess cramer_solve (currentGuess st) (realTargetsCalculated st)
          (targetsCalculated st) (jacobian st)"
    if "map Re T = map Re (targetsCalculated st)" for T R
    using updateGuess_frame [OF call] that by blast
  have "updateGuess cramer_solve [2, 2, 2] [1, 1, 1] [Complex 7 1, Complex 5 2, Complex 9 3]
        [[2, 4, 4], [4, 4, 4], [1, - 1, 1]]
     = updateGuess cramer_solve [2, 2, 2] [0, 0, 0] [7, 5, 9]
        [[2, 4, 4], [4, 4, 4], [1, - 1, 1]]"
    using indep [of "[Complex 7 1, Complex 5 2, Complex 9 3]" "[1, 1, 1]"]
    by (simp add: fields)
  with call show ?thesis
    by (simp add: st_def)
qed

subsection \<open>C2: the Newton update\<close>

text \<open>
  C2, as the claim states it, fails: the update does not involve the desired targets. From
  the initial state of \<^verbatim>\<open>main\<close> with desired targets \<open>F* = (1, 0, 0)\<close>, the estimator
  gives \<open>J\<close> with rows (2,4,1), (4,4,-1), (4,4,1) and \<open>F = (7, 5, 9)\<close>, and one pass of the
  loop with the exact solver moves the guess from (2, 2, 2) to (1, 5/4, 0); this increment
  \<open>\<Delta>\<close> has \<open>J \<Delta> = -F = (-7, -5, -9)\<close>, not \<open>-(F - F*) = (-6, -5, -9)\<close>.
\<close>

theorem newton_update_counterexample:
  "targetsDesired target_state = [1, 0, 0]
   \<and> currentGuess target_state = [2, 2, 2]
   \<and> jacobian (call_calculateJacobian PROBEDISTANCE target_state)
       = [[2, 4, 4], [4, 4, 4], [1, - 1, 1]]
   \<and> targetsCalculated (call_calculateJacobian PROBEDISTANCE target_state) = [7, 5, 9]
   \<and> newton_iteration cramer_solve PROBEDISTANCE target_state =
       Inr (first_state\<lparr>targetsDesired := [1, 0, 0],
              error := calculateResidual [1, 0, 0] [25 / 16, 25 / 16, 25 / 16]\<rparr>)
   \<and> currentGuess first_state = [1, 5 / 4, 0]
   \<and> mat_vec [[2, 4, 4], [4, 4, 4], [1, - 1, 1]] [1 - 2, 5 / 4 - 2, 0 - 2]
       = [- 7, - 5, - 9]
   \<and> mat_vec [[2, 4, 4], [4, 4, 4], [1, - 1, 1]] [1 - 2, 5 / 4 - 2, 0 - 2]
       \<noteq> map uminus (map2 (-) [7, 5, 9] [1, 0, 0])"
proof -
  have ok: "state_ok target_state"
    using state_ok_initial [of main_guess]
    by (simp add: target_state_def state_ok_def main_guess_def)
  have fields: "offsets target_state = main_offsets"
    "currentGuess target_state = main_guess"
    by (simp_all add: target_state_def initial_state_fields)
  have "jacobian (call_calculateJacobian PROBEDISTANCE target_state)
       = [[2, 4, 4], [4, 4, 4], [1, - 1, 1]]"
    "targetsCalculated (call_calculateJacobian PROBEDISTANCE target_state) = [7, 5, 9]"
    unfolding call_calculateJacobian_eval [OF ok] fields
    by (simp_all add: first_jacobian first_targets)
  moreover have "mat_vec [[2, 4, 4], [4, 4, 4], [1, - 1, 1]] [1 - 2, 5 / 4 - 2, 0 - 2]
       = [- 7, - 5, - 9]"
    unfolding mat_vec_def upt3 by (simp add: mat_row_def)
  moreover have "targetsDesired target_state = [1, 0, 0]" "currentGuess target_state = [2, 2, 2]"
    by (simp_all add: target_state_def initial_state_fields main_guess_eq)
  moreover have "currentGuess first_state = [1, 5 / 4, 0]"
    by (simp add: first_state_def)
  ultimately show ?thesis
    using target_iteration by simp
qed

text \<open>
  C2, amended. In every Newton iteration that returns, with \<open>(J, F, x)\<close> the Jacobian, the
  unperturbed residual and the guess from the estimator, the driver calls the solver on
  \<open>J\<close> and \<open>- Re F\<close> (the desired targets are not used), so that for a solver that meets
  its contract the update \<open>\<Delta>\<close> satisfies \<open>J \<Delta> = - Re F\<close>, and then sets \<open>x \<leftarrow> x + \<Delta>\<close>.
  With the zero desired targets of \<^verbatim>\<open>main\<close> this is \<open>J \<Delta> = -(F - F*)\<close>.
\<close>

theorem newton_update:
  assumes "state_ok st" and "newton_iteration solve h st = Inr st'"
    and "\<And>M b d. solve M b = Some d \<Longrightarrow> mat_vec M d = b"
  shows "case calculateJacobian h calculateDependentVariables (offsets st) (jacobian st)
                (targetsCalculated st) (currentGuess st) of
           (J, F, x) \<Rightarrow>
             \<exists>d. solve J (map uminus (map Re F)) = Some d
               \<and> mat_vec J d = map uminus (map Re F)
               \<and> x = currentGuess st
               \<and> currentGuess st' = add_real x d
               \<and> (targetsDesired st = replicate NUMDIMENSIONS 0 \<longrightarrow>
                    mat_vec J d = map uminus (map2 (-) (map Re F) (map Re (targetsDesired st))))"
proof -
  have sizes: "length (offsets st) = NUMDIMENSIONS" "length (currentGuess st) = NUMDIMENSIONS"
    "length (targetsCalculated st) = NUMDIMENSIONS" "length (jacobian st) = NUMDIMENSIONS"
    using assms(1) by (simp_all add: state_ok_def)
  let ?J = "step_jacobian h (offsets st) (currentGuess st)"
  let ?F = "model_at (offsets st) (currentGuess st)"
  have zero: "map uminus (map2 (-) (map Re ?F) (map Re (targetsDesired st)))
      = map uminus (map Re ?F)"
    if "targetsDesired st = replicate NUMDIMENSIONS 0"
    unfolding that by (auto simp: length_model_at intro: nth_equalityI)
  show ?thesis
  proof (rule newton_iteration_Inr [OF assms(1,2)])
    fix d
    assume d: "solve ?J (map uminus (map Re ?F)) = Some d"
      and st': "st' = st\<lparr>jacobian := ?J,
               realTargetsCalculated := map Re ?F,
               currentGuess := add_real (currentGuess st) d,
               targetsCalculated := model_at (offsets st) (add_real (currentGuess st) d),
               error := calculateResidual (targetsDesired st)
                          (model_at (offsets st) (add_real (currentGuess st) d)),
               count := count st + 1\<rparr>"
    have prod: "mat_vec ?J d = map uminus (map Re ?F)"
      using assms(3) [OF d] .
    have upd: "currentGuess st' = add_real (currentGuess st) d"
      using st' by simp
    show ?thesis
      unfolding calculateJacobian_paraboloid [OF sizes] prod.case
    proof (intro exI [of _ d] conjI impI)
      show "solve ?J (map uminus (map Re ?F)) = Some d" by (rule d)
      show "mat_vec ?J d = map uminus (map Re ?F)" by (rule prod)
      show "currentGuess st = currentGuess st" by (rule refl)
      show "currentGuess st' = add_real (currentGuess st) d" by (rule upd)
      show "mat_vec ?J d = map uminus (map2 (-) (map Re ?F) (map Re (targetsDesired st)))"
        if "targetsDesired st = replicate NUMDIMENSIONS 0"
        using prod zero [OF that] by simp
    qed
  qed
qed

theorem newton_update_witness:
  "state_ok (initial_state main_guess)
   \<and> newton_iteration cramer_solve PROBEDISTANCE (initial_state main_guess) = Inr first_state
   \<and> (\<exists>d. cramer_solve [[2, 4, 4], [4, 4, 4], [1, - 1, 1]] [- 7, - 5, - 9] = Some d
        \<and> mat_vec [[2, 4, 4], [4, 4, 4], [1, - 1, 1]] d = [- 7, - 5, - 9]
        \<and> currentGuess first_state = add_real [2, 2, 2] d)"
proof -
  have ok: "state_ok (initial_state main_guess)"
    by (rule state_ok_initial) (simp add: main_guess_def)
  show ?thesis
    using newton_update [OF ok first_iteration cramer_solve_sound] ok first_iteration
    apply (simp add: initial_state_fields first_calculateJacobian)
    apply (simp add: main_guess_eq)
    apply blast
    done
qed

subsection \<open>C5: where imaginary parts appear\<close>

text \<open>
  C5. Start the driver from a real initial guess of the program's size, and let \<open>st\<close> be
  the state at the loop test after any number of passes. Then the guess of \<open>st\<close> is real,
  and a further pass leaves the imaginary parts of the guess as they are (the increment
  that \<^const>\<open>updateGuess\<close> adds is real). When \<^const>\<open>calculateJacobian\<close> runs from \<open>st\<close>
  with \<open>h > 0\<close> and any model \<open>f\<close>, the guess at the start of the pass for column \<open>j\<close> is
  the guess of \<open>st\<close>, and that pass is determined by the value of the model at one vector:
  the guess of \<open>st\<close> with \<open>i h\<close> added to coordinate \<open>j\<close>. This vector has imaginary part
  \<open>h\<close>, which is not zero, in coordinate \<open>j\<close> and imaginary part zero in every other
  coordinate; the pass returns the guess of \<open>st\<close>.
\<close>

theorem guess_imaginary_parts:
  assumes "length x0 = NUMDIMENSIONS" and "real_vec x0"
    and "loop_head solve h K eps (initial_state x0) n st"
    and "0 < h" and "j < NUMDIMENSIONS"
  shows "real_vec (currentGuess st)
         \<and> (\<forall>st'. newton_iteration solve h st = Inr st' \<longrightarrow>
               map Im (currentGuess st') = map Im (currentGuess st))
         \<and> (\<forall>f. case fold (jacobian_column h f (offsets st)) [0..<j]
                      (jacobian st, targetsCalculated st, currentGuess st) of
                (J', T', x') \<Rightarrow>
                  x' = currentGuess st
                  \<and> jacobian_column h f (offsets st) j (J', T', x') =
                      (J'[j := map (\<lambda>v. v * inverse h) (map Im
                          (f (offsets st)
                             ((currentGuess st)[j := currentGuess st ! j + Complex 0 h]) T'))],
                       f (offsets st)
                         ((currentGuess st)[j := currentGuess st ! j + Complex 0 h]) T',
                       currentGuess st))
         \<and> Im ((currentGuess st)[j := currentGuess st ! j + Complex 0 h] ! j) = h
         \<and> Im ((currentGuess st)[j := currentGuess st ! j + Complex 0 h] ! j) \<noteq> 0
         \<and> (\<forall>k<NUMDIMENSIONS. k \<noteq> j \<longrightarrow>
               Im ((currentGuess st)[j := currentGuess st ! j + Complex 0 h] ! k) = 0)"
proof -
  have ok0: "state_ok (initial_state x0)"
    using assms(1) by (rule state_ok_initial)
  have r0: "real_vec (currentGuess (initial_state x0))"
    using assms(2) by (simp add: initial_state_fields)
  have inv: "state_ok st \<and> real_vec (currentGuess st)"
    using assms(3) ok0 r0 by (rule loop_head_invariant)
  then have size: "length (currentGuess st) = NUMDIMENSIONS"
    by (simp add: state_ok_def)
  have im: "Im (currentGuess st ! k) = 0" if "k < NUMDIMENSIONS" for k
    using inv that size by (simp add: real_vec_entry)
  have upd: "map Im (currentGuess st') = map Im (currentGuess st)"
    if "newton_iteration solve h st = Inr st'" for st'
    using inv that by (intro newton_iteration_Im) simp_all
  have pass: "case fold (jacobian_column h f (offsets st)) [0..<j]
                      (jacobian st, targetsCalculated st, currentGuess st) of
      (J', T', x') \<Rightarrow>
        x' = currentGuess st
        \<and> jacobian_column h f (offsets st) j (J', T', x') =
            (J'[j := map (\<lambda>v. v * inverse h) (map Im
                (f (offsets st)
                   ((currentGuess st)[j := currentGuess st ! j + Complex 0 h]) T'))],
             f (offsets st)
               ((currentGuess st)[j := currentGuess st ! j + Complex 0 h]) T',
             currentGuess st)"
    for f
  proof -
    obtain J' T' where "fold (jacobian_column h f (offsets st)) [0..<j]
        (jacobian st, targetsCalculated st, currentGuess st) = (J', T', currentGuess st)"
      using jacobian_fold_guess by blast
    then show ?thesis
      by (simp add: jacobian_column_probe)
  qed
  have "Im ((currentGuess st)[j := currentGuess st ! j + Complex 0 h] ! j) = h"
    using im [OF assms(5)] assms(5) size by simp
  moreover have "Im ((currentGuess st)[j := currentGuess st ! j + Complex 0 h] ! k) = 0"
    if "k < NUMDIMENSIONS" "k \<noteq> j" for k
    using im [OF that(1)] that by simp
  ultimately show ?thesis
    using inv upd pass assms(4) by simp
qed

theorem guess_imaginary_parts_witness:
  "loop_head cramer_solve PROBEDISTANCE MAXITERATIONS ERRORTOLLERANCE
     (initial_state main_guess) 1 first_state
   \<and> currentGuess first_state = [1, 5 / 4, 0]
   \<and> real_vec (currentGuess first_state)
   \<and> fst (jacobian_column PROBEDISTANCE calculateDependentVariables main_offsets 0
        (jacobian first_state, targetsCalculated first_state, currentGuess first_state))
       = [[0, 2, 2], [4, 4, 4], [1, - 1, 1]]
   \<and> snd (snd (jacobian_column PROBEDISTANCE calculateDependentVariables main_offsets 0
        (jacobian first_state, targetsCalculated first_state, currentGuess first_state)))
       = [1, 5 / 4, 0]
   \<and> map Im ([1, 5 / 4, 0][0 := [1, 5 / 4, 0] ! 0 + Complex 0 PROBEDISTANCE])
       = [PROBEDISTANCE, 0, 0]"
proof -
  have len: "length main_guess = NUMDIMENSIONS"
    by (simp add: main_guess_def)
  have "loop_head cramer_solve PROBEDISTANCE MAXITERATIONS ERRORTOLLERANCE
      (initial_state main_guess) 0 (initial_state main_guess)"
    by (rule loop_head.entry)
  then have head: "loop_head cramer_solve PROBEDISTANCE MAXITERATIONS ERRORTOLLERANCE
      (initial_state main_guess) (Suc 0) first_state"
    by (rule loop_head.again)
      (simp_all add: initial_state_fields MAXITERATIONS_def ERRORTOLLERANCE_def first_iteration)
  have h: "0 < PROBEDISTANCE"
    by (simp add: PROBEDISTANCE_def)
  have j: "0 < NUMDIMENSIONS"
    by (simp add: NUMDIMENSIONS_def)
  have fields: "currentGuess first_state = [1, 5 / 4, 0]"
    "jacobian first_state = [[2, 4, 4], [4, 4, 4], [1, - 1, 1]]"
    "targetsCalculated first_state = [25 / 16, 25 / 16, 25 / 16]"
    "offsets first_state = main_offsets"
    by (simp_all add: first_state_def initial_state_fields)
  have sizes: "length [1, 5 / 4, 0 :: complex] = NUMDIMENSIONS"
    "length [25 / 16, 25 / 16, 25 / 16 :: complex] = NUMDIMENSIONS"
    "length main_offsets = NUMDIMENSIONS"
    using well_shaped_main_offsets by (simp_all add: NUMDIMENSIONS_def well_shaped_def)
  have r: "real_vec [1, 5 / 4, 0]"
    by (simp add: real_vec_def)
  have probe: "[1, 5 / 4, 0 :: complex][0 := [1, 5 / 4, 0] ! 0 + Complex 0 PROBEDISTANCE]
      = perturb PROBEDISTANCE 0 [1, 5 / 4, 0]"
    by (simp add: perturb_def)
  have psize: "length (perturb PROBEDISTANCE 0 [1, 5 / 4, 0 :: complex]) = NUMDIMENSIONS"
    by (simp add: length_perturb NUMDIMENSIONS_def)
  have entry: "Im (paraboloid main_offsets (perturb PROBEDISTANCE 0 [1, 5 / 4, 0]) i)
      / PROBEDISTANCE = analytic_row main_offsets [1, 5 / 4, 0] i ! 0"
    if "i < NUMDIMENSIONS" for i
    using sizes(1) r well_shaped_main_offsets real_mat_main_offsets probe_nonzero that j
    by (rule complex_step_entry)
  have over: "(\<lambda>v. v * inverse PROBEDISTANCE) = (\<lambda>v. v / PROBEDISTANCE)"
    by (rule ext) (rule divide_inverse [symmetric])
  have column: "map (\<lambda>v. v * inverse PROBEDISTANCE) (map Im
      (calculateDependentVariables main_offsets
         ([1, 5 / 4, 0][0 := [1, 5 / 4, 0] ! 0 + Complex 0 PROBEDISTANCE])
         [25 / 16, 25 / 16, 25 / 16])) = [0, 2, 2]"
    unfolding probe cdv_eval [OF psize sizes(2) sizes(3)] upt3 over
    using entry [of 0] entry [of 1] entry [of 2]
    by (simp add: NUMDIMENSIONS_def analytic_row_def main_offsets_eq mat_at_def)
  have "jacobian_column PROBEDISTANCE calculateDependentVariables main_offsets 0
        (jacobian first_state, targetsCalculated first_state, currentGuess first_state)
      = ([[2, 4, 4], [4, 4, 4], [1, - 1, 1]][0 := [0, 2, 2]],
         calculateDependentVariables main_offsets
           ([1, 5 / 4, 0][0 := [1, 5 / 4, 0] ! 0 + Complex 0 PROBEDISTANCE])
           [25 / 16, 25 / 16, 25 / 16],
         [1, 5 / 4, 0])"
    using guess_imaginary_parts [OF len real_vec_main_guess head h j] column
    by (simp add: fields)
  then show ?thesis
    using head fields(1) r by simp
qed

subsection \<open>C6: the loop stops\<close>

text \<open>
  C6. For every iteration cap \<open>K \<ge> 0\<close> (in particular \<open>K \<ge> 1\<close>) and every tolerance, the
  driver started in the initial state of \<^verbatim>\<open>main\<close> ends. If it leaves the loop, the state
  \<open>st\<close> at exit was reached by \<open>n\<close> passes of the body, each entered with \<open>c < K\<close> and
  \<open>r > \<epsilon>\<close>, where \<open>n = c \<le> K\<close>, and at exit \<open>r \<le> \<epsilon>\<close> or \<open>c = K\<close>. If instead the solver
  fails, it does so in a pass entered after fewer than \<open>K\<close> passes. The program runs the
  loop with \<open>K = 9\<close> and \<open>\<epsilon> = 10\<^sup>-\<^sup>4\<close>.
\<close>

theorem newton_loop_terminal:
  assumes "0 \<le> K"
  shows "(case newton_loop solve h K eps (initial_state x0) of
            Inr st \<Rightarrow>
              \<exists>n. loop_head solve h K eps (initial_state x0) n st
                 \<and> count st = int n \<and> int n \<le> K \<and> (error st \<le> eps \<or> count st = K)
          | Inl e \<Rightarrow>
              \<exists>n st. loop_head solve h K eps (initial_state x0) n st
                 \<and> count st = int n \<and> int n < K \<and> error st > eps
                 \<and> newton_iteration solve h st = Inl e)
         \<and> MAXITERATIONS = 9 \<and> ERRORTOLLERANCE = 1 / 10 ^ 4
         \<and> main solve = newton_loop solve PROBEDISTANCE 9 (1 / 10 ^ 4) (initial_state main_guess)"
proof -
  have c0: "count (initial_state x0) = 0"
    by (simp add: initial_state_fields)
  have le: "count (initial_state x0) \<le> K"
    using assms by (simp add: c0)
  have "case newton_loop solve h K eps (initial_state x0) of
            Inr st \<Rightarrow>
              \<exists>n. loop_head solve h K eps (initial_state x0) n st
                 \<and> count st = int n \<and> int n \<le> K \<and> (error st \<le> eps \<or> count st = K)
          | Inl e \<Rightarrow>
              \<exists>n st. loop_head solve h K eps (initial_state x0) n st
                 \<and> count st = int n \<and> int n < K \<and> error st > eps
                 \<and> newton_iteration solve h st = Inl e"
  proof (cases "newton_loop solve h K eps (initial_state x0)")
    case (Inl e)
    with newton_loop_result [OF le, of solve h eps] obtain n s where
      s: "loop_head solve h K eps (initial_state x0) n s" "count s < K" "error s > eps"
        "newton_iteration solve h s = Inl e"
      by auto
    have "count s = int n"
      using loop_head_count [OF s(1)] by (simp add: c0)
    with s Inl show ?thesis by auto
  next
    case (Inr st)
    with newton_loop_result [OF le, of solve h eps] obtain n where
      n: "loop_head solve h K eps (initial_state x0) n st"
        "count st = count (initial_state x0) + int n" "count st \<le> K"
        "error st \<le> eps \<or> count st = K"
      by auto
    then show ?thesis
      using Inr by (auto simp: c0)
  qed
  then show ?thesis
    by (simp add: main_def MAXITERATIONS_def ERRORTOLLERANCE_def)
qed

theorem newton_loop_terminal_witness:
  "(0 :: int) \<le> 1
   \<and> newton_loop cramer_solve PROBEDISTANCE 1 ERRORTOLLERANCE (initial_state main_guess)
       = Inr first_state
   \<and> (\<exists>n. loop_head cramer_solve PROBEDISTANCE 1 ERRORTOLLERANCE (initial_state main_guess)
             n first_state
        \<and> count first_state = int n \<and> int n \<le> 1
        \<and> (error first_state \<le> ERRORTOLLERANCE \<or> count first_state = 1))"
proof -
  have k: "(0 :: int) \<le> 1" by simp
  have "newton_loop cramer_solve PROBEDISTANCE 1 ERRORTOLLERANCE first_state = Inr first_state"
    by (subst newton_loop.simps) (simp add: first_state_def)
  then have run: "newton_loop cramer_solve PROBEDISTANCE 1 ERRORTOLLERANCE
      (initial_state main_guess) = Inr first_state"
    by (subst newton_loop.simps)
      (simp add: initial_state_fields ERRORTOLLERANCE_def first_iteration)
  show ?thesis
    using newton_loop_terminal [OF k, of cramer_solve PROBEDISTANCE ERRORTOLLERANCE main_guess]
    by (simp add: run)
qed

subsection \<open>C8: the initial state\<close>

text \<open>
  C8, as the claim states it, fails: the residual is initialised to \<open>10\<^sup>5\<close>, not to
  infinity, and for the tolerance \<open>\<epsilon> = 10\<^sup>5 > 0\<close> the loop is not entered: the driver
  returns the initial state, with count 0.
\<close>

theorem initial_residual_counterexample:
  "(0 :: real) < 10 ^ 5
   \<and> error (initial_state main_guess) = 10 ^ 5
   \<and> \<not> (count (initial_state main_guess) < MAXITERATIONS
          \<and> error (initial_state main_guess) > 10 ^ 5)
   \<and> newton_loop cramer_solve PROBEDISTANCE MAXITERATIONS (10 ^ 5) (initial_state main_guess)
       = Inr (initial_state main_guess)
   \<and> count (initial_state main_guess) = 0"
  by (subst newton_loop.simps) (simp add: initial_state_fields)

text \<open>
  C8, amended. At the start of a solve the iteration count is 0, the iterate is the initial
  guess and the residual is \<open>10\<^sup>5\<close>, so that the loop is entered for every cap \<open>K \<ge> 1\<close>,
  every tolerance \<open>\<epsilon> < 10\<^sup>5\<close> (the program's \<open>10\<^sup>-\<^sup>4\<close> is one) and every initial guess.
\<close>

theorem initial_state_enters_loop:
  assumes "1 \<le> K" and "eps < 10 ^ 5"
  shows "count (initial_state x0) = 0
         \<and> currentGuess (initial_state x0) = x0
         \<and> error (initial_state x0) = 10 ^ 5
         \<and> (count (initial_state x0) < K \<and> error (initial_state x0) > eps)
         \<and> newton_loop solve h K eps (initial_state x0) =
             (case newton_iteration solve h (initial_state x0) of
                Inl e \<Rightarrow> Inl e
              | Inr st' \<Rightarrow> newton_loop solve h K eps st')
         \<and> ERRORTOLLERANCE < 10 ^ 5"
  using assms
  by (subst newton_loop.simps) (simp add: initial_state_fields ERRORTOLLERANCE_def)

theorem initial_state_enters_loop_witness:
  "1 \<le> MAXITERATIONS \<and> ERRORTOLLERANCE < 10 ^ 5
   \<and> main cramer_solve
       = newton_loop cramer_solve PROBEDISTANCE MAXITERATIONS ERRORTOLLERANCE first_state"
proof -
  have k: "1 \<le> MAXITERATIONS"
    by (simp add: MAXITERATIONS_def)
  have e: "ERRORTOLLERANCE < 10 ^ 5"
    by (simp add: ERRORTOLLERANCE_def)
  show ?thesis
    using initial_state_enters_loop [OF k e, of main_guess cramer_solve PROBEDISTANCE] k
    by (simp add: main_def first_iteration)
qed

end
